theory Spec2Isabelle
  imports Main "HOL-Library.Code_Target_Numeral"
begin

section \<open>clog: the format expansion engine of \<^verbatim>\<open>clog.h\<close>\<close>

text \<open>
  A C string is modelled by the bytes before its terminator, a \<^typ>\<open>string\<close>;
  \<^verbatim>\<open>strlen\<close> is \<^const>\<open>length\<close>. Whatever the C code does beyond returning a value
  is a value of the model: a run that does not return normally ends in a \<open>fault\<close>.
  The sizes are those of an LP64 platform: \<^verbatim>\<open>int\<close> has 32 bits, \<^verbatim>\<open>size_t\<close> has 64.
\<close>

subsection \<open>Faults, sizes and memory regions\<close>

datatype fault =
    Hang        \<comment> \<open>the doubling loop of \<^verbatim>\<open>_clog_append_str\<close> never exits\<close>
  | NullDeref   \<comment> \<open>a null pointer handed to \<^verbatim>\<open>strlen\<close>, \<^verbatim>\<open>strcpy\<close>, \<^verbatim>\<open>strcat\<close> or \<^verbatim>\<open>vsnprintf\<close>\<close>
  | Overrun     \<comment> \<open>a write past the end of the region a pointer refers to\<close>
  | VaReuse     \<comment> \<open>a \<^verbatim>\<open>va_list\<close> read again after a callee has consumed it\<close>
  | IntOverflow \<comment> \<open>signed overflow in \<^verbatim>\<open>int\<close> arithmetic\<close>
  | BadIndex    \<comment> \<open>a read past the end of \<^verbatim>\<open>CLOG_LEVEL_NAMES\<close>\<close>

text \<open>\<^verbatim>\<open>size_t\<close> is 64 bits wide; arithmetic on it wraps around.\<close>

definition size_t :: "nat \<Rightarrow> nat" where
  "size_t n = n mod 2 ^ 64"

text \<open>
  The pointer \<^verbatim>\<open>*dst\<close> of the append functions is null, the caller's scratch array
  \<^verbatim>\<open>orig_buf\<close>, or a block obtained from \<^verbatim>\<open>malloc\<close>/\<^verbatim>\<open>realloc\<close>. With it the model
  keeps the string stored there and the number of bytes the region has.
\<close>

datatype ptr = Null | Orig | Heap

record dst =
  ptr :: ptr
  str :: string
  room :: nat

text \<open>
  Whether an allocation of \<open>n\<close> bytes succeeds is decided by the environment: an
  allocator is a predicate on the requested size.
\<close>

type_synonym allocator = "nat \<Rightarrow> bool"

definition malloc :: "allocator \<Rightarrow> nat \<Rightarrow> dst" where
  "malloc A n = (if A n then \<lparr>ptr = Heap, str = [], room = n\<rparr>
                 else \<lparr>ptr = Null, str = [], room = 0\<rparr>)"

definition realloc :: "allocator \<Rightarrow> dst \<Rightarrow> nat \<Rightarrow> dst" where
  "realloc A d n = (if A n then \<lparr>ptr = Heap, str = str d, room = n\<rparr>
                    else \<lparr>ptr = Null, str = [], room = 0\<rparr>)"

definition strcpy :: "dst \<Rightarrow> string \<Rightarrow> fault + dst" where
  "strcpy d src =
     (if ptr d = Null then Inl NullDeref
      else if room d < length src + 1 then Inl Overrun
      else Inr (d\<lparr>str := src\<rparr>))"

definition strcat :: "dst \<Rightarrow> string \<Rightarrow> fault + dst" where
  "strcat d src =
     (if ptr d = Null then Inl NullDeref
      else if room d < length (str d) + length src + 1 then Inl Overrun
      else Inr (d\<lparr>str := str d @ src\<rparr>))"

subsection \<open>\<^verbatim>\<open>_clog_append_str\<close>\<close>

text \<open>
  The loop \<^verbatim>\<open>while (strlen(*dst) + strlen(src) >= new_size) new_size *= 2;\<close> with
  \<open>need\<close> the sum of the two lengths. It may run forever: \<open>None\<close> is not returning.
\<close>

partial_function (option) grow :: "nat \<Rightarrow> nat \<Rightarrow> nat option" where
  "grow need new_size =
     (if need \<ge> new_size then grow need (size_t (new_size * 2)) else Some new_size)"

declare grow.simps [code]

definition clog_append_str :: "allocator \<Rightarrow> dst \<Rightarrow> string \<Rightarrow> nat \<Rightarrow> fault + dst \<times> nat" where
  "clog_append_str A d src cur_size =
     (if ptr d = Null then Inl NullDeref
      else case grow (size_t (length (str d) + length src)) cur_size of
        None \<Rightarrow> Inl Hang
      | Some new_size \<Rightarrow>
          (case (if new_size \<noteq> cur_size
                 then (if ptr d = Orig then strcpy (malloc A new_size) (str d)
                       else Inr (realloc A d new_size))
                 else Inr d) of
             Inl f \<Rightarrow> Inl f
           | Inr d' \<Rightarrow>
               (case strcat d' src of
                  Inl f \<Rightarrow> Inl f
                | Inr d'' \<Rightarrow> Inr (d'', new_size))))"

subsection \<open>\<^verbatim>\<open>_clog_append_int\<close> and \<^verbatim>\<open>_clog_append_time\<close>\<close>

text \<open>
  What \<^verbatim>\<open>snprintf\<close> makes of \<^verbatim>\<open>"%ld"\<close>: the decimal digits, most significant first,
  after a minus sign for a negative value. \<^verbatim>\<open>long int\<close> has no fixed width in C, so
  the argument is an integer of any size.
\<close>

definition digit :: "nat \<Rightarrow> char" where
  "digit n = ''0123456789'' ! n"

function dec_nat :: "nat \<Rightarrow> string" where
  "dec_nat n = (if n < 10 then [digit n] else dec_nat (n div 10) @ [digit (n mod 10)])"
  by pat_completeness auto
termination
  by (relation "measure id") auto

declare dec_nat.simps [simp del]

definition printf_ld :: "int \<Rightarrow> string" where
  "printf_ld d = (if d < 0 then CHR ''-'' # dec_nat (nat (- d)) else dec_nat (nat d))"

text \<open>
  \<^verbatim>\<open>snprintf(buf, 40, "%ld", d)\<close> returns the length of the whole rendering, which
  fits \<^verbatim>\<open>buf\<close> with its terminator when it is below 40.
\<close>

definition clog_append_int :: "allocator \<Rightarrow> dst \<Rightarrow> int \<Rightarrow> nat \<Rightarrow> fault + dst \<times> nat" where
  "clog_append_int A d n cur_size =
     (if length (printf_ld n) \<ge> 40 then Inr (d, cur_size)
      else clog_append_str A d (printf_ld n) cur_size)"

text \<open>
  The environment of a call: \<open>strftime\<close> maps a pattern to the text it gives for the
  current local time (of any length), \<open>clock\<close> is the tick count, \<open>posix_open\<close>,
  \<open>posix_write\<close> and \<open>call\<close> give what opening a path, writing a string to a descriptor
  and calling a console function return.
\<close>

datatype fn = Printf | Custom nat

record env =
  strftime :: "string \<Rightarrow> string"
  clock :: int
  posix_open :: "string \<Rightarrow> int"
  posix_write :: "int \<Rightarrow> string \<Rightarrow> int"
  call :: "fn \<Rightarrow> string \<Rightarrow> int"

definition CLOG_DATETIME_LENGTH :: nat where
  "CLOG_DATETIME_LENGTH = 256"

text \<open>
  \<^verbatim>\<open>strftime(buf, CLOG_DATETIME_LENGTH, fmt, lt)\<close> returns the length of the text when
  the text and its terminator fit, and 0 otherwise.
\<close>

definition clog_append_time :: "allocator \<Rightarrow> dst \<Rightarrow> env \<Rightarrow> string \<Rightarrow> nat \<Rightarrow> fault + dst \<times> nat" where
  "clog_append_time A d E fmt cur_size =
     (let buf = strftime E fmt;
          result = (if length buf + 1 \<le> CLOG_DATETIME_LENGTH then length buf else 0)
      in if result > 0 then clog_append_str A d buf cur_size else Inr (d, cur_size))"

subsection \<open>\<^verbatim>\<open>_clog_basename\<close>\<close>

text \<open>The compile-time switches of the header.\<close>

record build =
  CLOG_TIME_SUPPORT :: bool
  CLOG_FILE_SUPPORT :: bool
  CLOG_SILENT :: bool
  WIN32 :: bool

text \<open>\<^verbatim>\<open>strrchr\<close>: the index of the last occurrence of a character, if there is one.\<close>

fun strrchr :: "string \<Rightarrow> char \<Rightarrow> nat option" where
  "strrchr [] c = None"
| "strrchr (x # xs) c =
     (case strrchr xs c of
        Some i \<Rightarrow> Some (Suc i)
      | None \<Rightarrow> if x = c then Some 0 else None)"

definition clog_basename :: "build \<Rightarrow> string \<Rightarrow> string" where
  "clog_basename B path =
     (let path = (case strrchr path CHR ''/'' of Some slash \<Rightarrow> drop (slash + 1) path | None \<Rightarrow> path)
      in if WIN32 B
         then (case strrchr path (CHR 0x5C) of Some slash \<Rightarrow> drop (slash + 1) path | None \<Rightarrow> path)
         else path)"

subsection \<open>\<^verbatim>\<open>_clog_format\<close>\<close>

record clog =
  fd :: int
  func :: "fn option"
  fmt :: string
  date_fmt :: string
  time_fmt :: string

text \<open>The values of one log call that the directives substitute.\<close>

record args =
  sfile :: string
  sline :: int
  sfunction :: string
  smodule :: string
  level :: string
  message :: string

datatype scan = NORMAL | SUBST

text \<open>One round of the \<^verbatim>\<open>for\<close> loop, at the character \<open>c\<close> of the format.\<close>

definition format_step ::
  "build \<Rightarrow> allocator \<Rightarrow> env \<Rightarrow> clog \<Rightarrow> args \<Rightarrow> scan \<Rightarrow> char \<Rightarrow> dst \<Rightarrow> nat \<Rightarrow> fault + scan \<times> dst \<times> nat" where
  "format_step B A E logger X state c result cur_size =
     (if state = NORMAL then
        (if c = CHR ''%'' then Inr (SUBST, result, cur_size)
         else map_sum id (Pair NORMAL) (clog_append_str A result [c] cur_size))
      else map_sum id (Pair NORMAL)
        (if c = CHR ''%'' then clog_append_str A result ''%'' cur_size
         else if CLOG_TIME_SUPPORT B \<and> c = CHR ''t'' then clog_append_time A result E (time_fmt logger) cur_size
         else if CLOG_TIME_SUPPORT B \<and> c = CHR ''d'' then clog_append_time A result E (date_fmt logger) cur_size
         else if CLOG_TIME_SUPPORT B \<and> c = CHR ''h'' then clog_append_int A result (clock E) cur_size
         else if c = CHR ''l'' then clog_append_str A result (level X) cur_size
         else if c = CHR ''e'' then clog_append_str A result (smodule X) cur_size
         else if c = CHR ''g'' then clog_append_str A result (sfunction X) cur_size
         else if c = CHR ''n'' then clog_append_int A result (sline X) cur_size
         else if c = CHR ''f'' then clog_append_str A result (sfile X) cur_size
         else if c = CHR ''m'' then clog_append_str A result (message X) cur_size
         else Inr (result, cur_size)))"

fun format_loop ::
  "build \<Rightarrow> allocator \<Rightarrow> env \<Rightarrow> clog \<Rightarrow> args \<Rightarrow> string \<Rightarrow> scan \<Rightarrow> dst \<Rightarrow> nat \<Rightarrow> fault + dst" where
  "format_loop B A E logger X [] state result cur_size = Inr result"
| "format_loop B A E logger X (c # cs) state result cur_size =
     (case format_step B A E logger X state c result cur_size of
        Inl f \<Rightarrow> Inl f
      | Inr (state', result', cur_size') \<Rightarrow> format_loop B A E logger X cs state' result' cur_size')"

text \<open>
  \<open>buf\<close> is the number of bytes the caller's array has, \<open>buf_size\<close> the size the caller
  states. \<^verbatim>\<open>result[0] = 0\<close> writes one byte into the array.
\<close>

definition clog_format ::
  "build \<Rightarrow> allocator \<Rightarrow> env \<Rightarrow> clog \<Rightarrow> nat \<Rightarrow> nat \<Rightarrow> args \<Rightarrow> fault + dst" where
  "clog_format B A E logger buf buf_size X =
     (if buf < 1 then Inl Overrun
      else format_loop B A E logger (X\<lparr>sfile := clog_basename B (sfile X)\<rparr>) (fmt logger)
             NORMAL \<lparr>ptr = Orig, str = [], room = buf\<rparr> buf_size)"

subsection \<open>\<^verbatim>\<open>clog_init_file\<close>, \<^verbatim>\<open>clog_init_console\<close> and \<^verbatim>\<open>_clog_err\<close>\<close>

text \<open>
  What a call leaves outside the program: a diagnostic on \<^verbatim>\<open>stderr\<close> (named by its
  format), a string written to a descriptor, a console function called with a string.
\<close>

datatype event = Err string | Written int string | Called fn string

definition clog_err :: "build \<Rightarrow> string \<Rightarrow> event list" where
  "clog_err B f = (if CLOG_SILENT B then [] else [Err f])"


definition clog_init_console :: "build \<Rightarrow> fn option \<Rightarrow> clog \<Rightarrow> int \<times> clog \<times> event list" where
  "clog_init_console B f logger =
     (case f of
        None \<Rightarrow> (1, logger, clog_err B ''Invalid pointer\<newline>'')
      | Some g \<Rightarrow> (0, (if CLOG_FILE_SUPPORT B then logger\<lparr>fd := 0\<rparr> else logger)\<lparr>func := Some g\<rparr>, []))"

subsection \<open>\<^verbatim>\<open>_clog_log\<close>\<close>

datatype clog_level = LEVEL_DEBUG | LEVEL_INFO | LEVEL_WARN | LEVEL_ERROR | LEVEL_NONE

fun level_index :: "clog_level \<Rightarrow> nat" where
  "level_index LEVEL_DEBUG = 0"
| "level_index LEVEL_INFO = 1"
| "level_index LEVEL_WARN = 2"
| "level_index LEVEL_ERROR = 3"
| "level_index LEVEL_NONE = 4"

definition CLOG_LEVEL_NAMES :: "string list" where
  "CLOG_LEVEL_NAMES = [''D'', ''I'', ''W'', ''E'']"

definition level_name :: "clog_level \<Rightarrow> fault + string" where
  "level_name l =
     (if level_index l < length CLOG_LEVEL_NAMES then Inr (CLOG_LEVEL_NAMES ! level_index l)
      else Inl BadIndex)"

text \<open>
  The user's message is a \<^verbatim>\<open>printf\<close> format with variadic arguments. Formatting is
  the C library's; a call is described by the text the format and its arguments expand
  to, and by whether expanding reads an argument with \<^verbatim>\<open>va_arg\<close>. A \<^verbatim>\<open>va_list\<close> that
  a callee has read from is indeterminate in the caller (C11 7.16), and reading it
  again is undefined.
\<close>

record printf_call =
  expansion :: string
  reads_args :: bool

datatype va_list = Ready | Consumed

definition INT_MAX :: int where
  "INT_MAX = 2 ^ 31 - 1"

definition size_t_of_int :: "int \<Rightarrow> nat" where
  "size_t_of_int i = nat (i mod 2 ^ 64)"

text \<open>
  \<^verbatim>\<open>vsnprintf(d, n, fmt, ap)\<close> stores at most \<open>n - 1\<close> bytes of the expansion and a
  terminator, and returns the length of the whole expansion, or a negative value when
  that length is not an \<^verbatim>\<open>int\<close>.
\<close>

definition vsnprintf :: "dst \<Rightarrow> nat \<Rightarrow> printf_call \<Rightarrow> va_list \<Rightarrow> fault + dst \<times> int \<times> va_list" where
  "vsnprintf d n c ap =
     (let result = (if int (length (expansion c)) > INT_MAX then - 1 else int (length (expansion c)));
          ap' = (if reads_args c then Consumed else ap)
      in if reads_args c \<and> ap = Consumed then Inl VaReuse
         else if n = 0 then Inr (d, result, ap')
         else if ptr d = Null then Inl NullDeref
         else if room d < min n (length (expansion c) + 1) then Inl Overrun
         else Inr (d\<lparr>str := take (n - 1) (expansion c)\<rparr>, result, ap'))"

text \<open>
  The first part of \<^verbatim>\<open>_clog_log\<close>, up to the second \<^verbatim>\<open>va_end\<close>: the message in
  \<^verbatim>\<open>dynbuf\<close> with the last value of \<^verbatim>\<open>result\<close>, or \<open>None\<close> when the function gives up
  with \<^verbatim>\<open>Formatting failed (1)\<close>. \<open>Orig\<close> is the array \<^verbatim>\<open>buf\<close> here.
\<close>

definition clog_log_message :: "allocator \<Rightarrow> printf_call \<Rightarrow> fault + (dst \<times> int) option" where
  "clog_log_message A c =
     (case vsnprintf \<lparr>ptr = Orig, str = [], room = 4096\<rparr> 4096 c Ready of
        Inl f \<Rightarrow> Inl f
      | Inr (buf, result, ap) \<Rightarrow>
          if size_t_of_int result \<ge> 4096 then
            (if result = INT_MAX then Inl IntOverflow
             else let buf_size = size_t_of_int (result + 1)
                  in case vsnprintf (malloc A buf_size) buf_size c ap of
                       Inl f \<Rightarrow> Inl f
                     | Inr (dynbuf, result', ap') \<Rightarrow>
                         if size_t_of_int result' \<ge> buf_size then Inr None
                         else Inr (Some (dynbuf, result')))
          else Inr (Some (buf, result)))"

datatype exit = Failed1 | Failed2 | Completed

definition clog_log ::
  "build \<Rightarrow> allocator \<Rightarrow> env \<Rightarrow> clog \<Rightarrow> string \<Rightarrow> int \<Rightarrow> string \<Rightarrow> string \<Rightarrow> clog_level \<Rightarrow> printf_call
     \<Rightarrow> fault + exit \<times> event list" where
  "clog_log B A E logger sfile' sline' sfunction' smodule' level' c =
     (case clog_log_message A c of
        Inl f \<Rightarrow> Inl f
      | Inr None \<Rightarrow> Inr (Failed1, clog_err B ''Formatting failed (1).\<newline>'')
      | Inr (Some (dynbuf, result)) \<Rightarrow>
          (case level_name level' of
             Inl f \<Rightarrow> Inl f
           | Inr name \<Rightarrow>
               (case clog_format B A E logger 4096 4096
                       \<lparr>sfile = sfile', sline = sline', sfunction = sfunction', smodule = smodule',
                        level = name, message = str dynbuf\<rparr> of
                  Inl f \<Rightarrow> Inl f
                | Inr message' \<Rightarrow>
                    if ptr message' = Null
                    then Inr (Failed2, clog_err B ''Formatting failed (2).\<newline>'')
                    else
                      (let (result', out) =
                             (if CLOG_FILE_SUPPORT B \<and> fd logger \<noteq> 0
                              then (posix_write E (fd logger) (str message'),
                                    [Written (fd logger) (str message')])
                              else case func logger of
                                     Some f \<Rightarrow> (call E f (str message'), [Called f (str message')])
                                   | None \<Rightarrow> (result, []))
                       in Inr (Completed,
                               out @ (if result' = - 1
                                      then clog_err B ''Unable to write to log file: %s\<newline>''
                                      else []))))))"

text \<open>The initial value of \<^verbatim>\<open>_clog_logger\<close>.\<close>

definition CLOG_DEFAULT_FORMAT :: "build \<Rightarrow> string" where
  "CLOG_DEFAULT_FORMAT B =
     (if CLOG_TIME_SUPPORT B then ''%d %t.%h %l: %e: %f(%n): %g: %m\<newline>''
      else ''%l: %e: %f(%n): %g: %m\<newline>'')"

definition clog_logger :: "build \<Rightarrow> clog" where
  "clog_logger B =
     \<lparr>fd = 0, func = Some Printf, fmt = CLOG_DEFAULT_FORMAT B,
      date_fmt = ''%Y-%m-%d'', time_fmt = ''%H:%M:%S''\<rparr>"

section \<open>Notions of the specification\<close>

text \<open>
  The smallest value that is reached from a capacity \<open>c\<close> by doubling and exceeds
  \<open>need\<close>, computed without a bound on the size.
\<close>

function fit :: "nat \<Rightarrow> nat \<Rightarrow> nat" where
  "fit need c = (if c = 0 \<or> need < c then c else fit need (2 * c))"
  by pat_completeness auto
termination
  by (relation "measure (\<lambda>(need, c). need + 1 - c)") auto

declare fit.simps [simp del]

text \<open>A sequence of appends, the returned capacity handed to the next append.\<close>

fun appends :: "allocator \<Rightarrow> dst \<Rightarrow> nat \<Rightarrow> string list \<Rightarrow> fault + dst \<times> nat" where
  "appends A d cur_size [] = Inr (d, cur_size)"
| "appends A d cur_size (s # ss) =
     (case clog_append_str A d s cur_size of
        Inl f \<Rightarrow> Inl f
      | Inr (d', cur_size') \<Rightarrow> appends A d' cur_size' ss)"

text \<open>
  A buffer in good standing: the pointer is not null, the string and its terminator
  fit the stated capacity, and the capacity is within the region, whose size is a
  \<^verbatim>\<open>size_t\<close>.
\<close>

definition valid :: "dst \<Rightarrow> nat \<Rightarrow> bool" where
  "valid d cur_size \<longleftrightarrow>
     ptr d \<noteq> Null \<and> length (str d) < cur_size \<and> cur_size \<le> room d \<and> room d \<le> 2 ^ 64"

text \<open>
  The buffer after its content has grown to the string \<open>s\<close>: in place while the
  capacity suffices, in a heap block of the fitted capacity otherwise.
\<close>

definition grown :: "dst \<Rightarrow> nat \<Rightarrow> string \<Rightarrow> dst" where
  "grown d cur_size s =
     (if fit (length s) cur_size = cur_size then d\<lparr>str := s\<rparr>
      else \<lparr>ptr = Heap, str = s, room = fit (length s) cur_size\<rparr>)"

text \<open>
  The scanner as a pure function: the state after a character, the text a character
  contributes in a state, and the expansion of a whole format.
\<close>

fun next_state :: "scan \<Rightarrow> char \<Rightarrow> scan" where
  "next_state NORMAL c = (if c = CHR ''%'' then SUBST else NORMAL)"
| "next_state SUBST c = NORMAL"

fun scan_state :: "scan \<Rightarrow> string \<Rightarrow> scan" where
  "scan_state s [] = s"
| "scan_state s (c # cs) = scan_state (next_state s c) cs"

definition int_text :: "int \<Rightarrow> string" where
  "int_text n = (if length (printf_ld n) \<ge> 40 then [] else printf_ld n)"

definition time_text :: "env \<Rightarrow> string \<Rightarrow> string" where
  "time_text E f = (if length (strftime E f) + 1 \<le> CLOG_DATETIME_LENGTH then strftime E f else [])"

definition piece :: "build \<Rightarrow> env \<Rightarrow> clog \<Rightarrow> args \<Rightarrow> scan \<Rightarrow> char \<Rightarrow> string" where
  "piece B E logger X state c =
     (if state = NORMAL then (if c = CHR ''%'' then [] else [c])
      else if c = CHR ''%'' then ''%''
      else if CLOG_TIME_SUPPORT B \<and> c = CHR ''t'' then time_text E (time_fmt logger)
      else if CLOG_TIME_SUPPORT B \<and> c = CHR ''d'' then time_text E (date_fmt logger)
      else if CLOG_TIME_SUPPORT B \<and> c = CHR ''h'' then int_text (clock E)
      else if c = CHR ''l'' then level X
      else if c = CHR ''e'' then smodule X
      else if c = CHR ''g'' then sfunction X
      else if c = CHR ''n'' then int_text (sline X)
      else if c = CHR ''f'' then sfile X
      else if c = CHR ''m'' then message X
      else [])"

fun pieces :: "build \<Rightarrow> env \<Rightarrow> clog \<Rightarrow> args \<Rightarrow> scan \<Rightarrow> string \<Rightarrow> string list" where
  "pieces B E logger X state [] = []"
| "pieces B E logger X state (c # cs) =
     piece B E logger X state c # pieces B E logger X (next_state state c) cs"

definition expand :: "build \<Rightarrow> env \<Rightarrow> clog \<Rightarrow> args \<Rightarrow> string" where
  "expand B E logger X =
     concat (pieces B E logger (X\<lparr>sfile := clog_basename B (sfile X)\<rparr>) NORMAL (fmt logger))"

text \<open>Reading a decimal text back: the value of the digits, after an optional minus sign.\<close>

definition digit_value :: "char \<Rightarrow> nat" where
  "digit_value c = of_char c - 48"

definition read_nat :: "string \<Rightarrow> nat" where
  "read_nat s = foldl (\<lambda>a c. 10 * a + digit_value c) 0 s"

definition read_ld :: "string \<Rightarrow> int" where
  "read_ld s = (case s of c # r \<Rightarrow> if c = CHR ''-'' then - int (read_nat r) else int (read_nat s)
                | [] \<Rightarrow> 0)"

text \<open>The characters that select a substitution.\<close>

definition recognized :: "build \<Rightarrow> char set" where
  "recognized B =
     {CHR ''%'', CHR ''l'', CHR ''e'', CHR ''g'', CHR ''n'', CHR ''f'', CHR ''m''} \<union>
     (if CLOG_TIME_SUPPORT B then {CHR ''t'', CHR ''d'', CHR ''h''} else {})"

text \<open>The text after the last character that satisfies \<open>P\<close>.\<close>

definition after_last :: "(char \<Rightarrow> bool) \<Rightarrow> string \<Rightarrow> string" where
  "after_last P s = rev (takeWhile (\<lambda>c. \<not> P c) (rev s))"

definition separator :: "build \<Rightarrow> char \<Rightarrow> bool" where
  "separator B c \<longleftrightarrow> c = CHR ''/'' \<or> (WIN32 B \<and> c = CHR 0x5C)"

subsection \<open>Sample inputs\<close>

definition posix_build :: build where
  "posix_build = \<lparr>CLOG_TIME_SUPPORT = False, CLOG_FILE_SUPPORT = False, CLOG_SILENT = False, WIN32 = False\<rparr>"


definition windows_build :: build where
  "windows_build = \<lparr>CLOG_TIME_SUPPORT = True, CLOG_FILE_SUPPORT = True, CLOG_SILENT = False, WIN32 = True\<rparr>"

definition sample_env :: env where
  "sample_env = \<lparr>strftime = (\<lambda>f. ''12:00:00''), clock = 7, posix_open = (\<lambda>p. 3),
                  posix_write = (\<lambda>d s. int (length s)), call = (\<lambda>f s. int (length s))\<rparr>"

definition sample_args :: args where
  "sample_args = \<lparr>sfile = ''/a/b/c.ext'', sline = 42, sfunction = ''main'', smodule = ''NET'',
                   level = ''E'', message = ''connection lost''\<rparr>"

section \<open>Properties\<close>

subsection \<open>The doubling loop\<close>

lemma grow_fits: "need < n \<Longrightarrow> grow need n = Some n"
  by (subst grow.simps) simp

lemma grow_Some_pos:
  assumes "grow need n = Some r"
  shows "0 < n"
proof (rule grow.raw_induct [where P = "\<lambda>_ n _. 0 < n", OF _ assms])
  fix g :: "nat \<Rightarrow> nat \<Rightarrow> nat option" and need n r
  assume IH: "\<And>need n r. g need n = Some r \<Longrightarrow> 0 < n"
    and step: "(if n \<le> need then g need (size_t (n * 2)) else Some n) = Some r"
  show "0 < n"
  proof (cases "n \<le> need")
    case True
    with step have "0 < size_t (n * 2)" by (auto dest: IH)
    then show ?thesis by (cases "n = 0") (simp_all add: size_t_def)
  next
    case False
    then show ?thesis by simp
  qed
qed

lemma grow_zero: "grow need 0 = None"
  using grow_Some_pos [of need 0] by (cases "grow need 0") auto

text \<open>
  Past one half of the range of \<^verbatim>\<open>size_t\<close> the doubling wraps around to zero, and the
  loop does not exit.
\<close>

lemma grow_wraps: "grow (2 ^ 63) (2 ^ 63) = None"
  by (subst grow.simps) (simp add: size_t_def grow_zero)

lemma grow_Some_gt:
  assumes "grow need n = Some r"
  shows "need < r"
proof (rule grow.raw_induct [where P = "\<lambda>need _ r. need < r", OF _ assms])
  fix g :: "nat \<Rightarrow> nat \<Rightarrow> nat option" and need n r
  assume IH: "\<And>need n r. g need n = Some r \<Longrightarrow> need < r"
    and step: "(if n \<le> need then g need (size_t (n * 2)) else Some n) = Some r"
  then show "need < r" by (cases "n \<le> need") (auto dest: IH)
qed

lemma grow_Some_bound:
  assumes "grow need n = Some r"
  shows "r = n \<or> r < 2 ^ 64"
proof (rule grow.raw_induct [where P = "\<lambda>_ n r. r = n \<or> r < 2 ^ 64", OF _ assms])
  fix g :: "nat \<Rightarrow> nat \<Rightarrow> nat option" and need n r
  assume IH: "\<And>need n r. g need n = Some r \<Longrightarrow> r = n \<or> r < 2 ^ 64"
    and step: "(if n \<le> need then g need (size_t (n * 2)) else Some n) = Some r"
  show "r = n \<or> r < 2 ^ 64"
  proof (cases "n \<le> need")
    case True
    with step have "r = size_t (n * 2) \<or> r < 2 ^ 64" by (auto dest: IH)
    moreover have "size_t (n * 2) < 2 ^ 64" by (simp add: size_t_def)
    ultimately show ?thesis by auto
  next
    case False
    with step show ?thesis by simp
  qed
qed

lemma size_t_id: "n < 2 ^ 64 \<Longrightarrow> size_t n = n"
  by (simp add: size_t_def)

lemma fit_fits: "need < c \<Longrightarrow> fit need c = c"
  by (simp add: fit.simps)

lemma fit_pos: "0 < c \<Longrightarrow> 0 < fit need c"
  by (induction need c rule: fit.induct) (subst fit.simps, simp)

lemma fit_gt: "0 < c \<Longrightarrow> need < fit need c"
  by (induction need c rule: fit.induct) (subst fit.simps, simp)

lemma fit_ge: "c \<le> fit need c"
  by (induction need c rule: fit.induct) (subst fit.simps, auto)

lemma fit_fit: "L1 \<le> L2 \<Longrightarrow> fit L2 (fit L1 c) = fit L2 c"
proof (induction L1 c rule: fit.induct)
  case (1 L1 c)
  show ?case
  proof (cases "c = 0 \<or> L1 < c")
    case True
    then show ?thesis by (simp add: fit.simps [of L1 c])
  next
    case False
    with 1 have "fit L2 (fit L1 (2 * c)) = fit L2 (2 * c)" by simp
    moreover from False have "fit L1 c = fit L1 (2 * c)" by (subst fit.simps) simp
    moreover from False 1(2) have "fit L2 c = fit L2 (2 * c)" by (subst fit.simps) simp
    ultimately show ?thesis by simp
  qed
qed

lemma fit_mono: "L1 \<le> L2 \<Longrightarrow> fit L1 c \<le> fit L2 c"
  using fit_fit [of L1 L2 c] fit_ge [of "fit L1 c" L2] by simp

lemma fit_char: "0 < c \<Longrightarrow> \<exists>k. fit need c = c * 2 ^ k \<and> need < c * 2 ^ k \<and> (\<forall>j<k. c * 2 ^ j \<le> need)"
proof (induction need c rule: fit.induct)
  case (1 need c)
  show ?case
  proof (cases "need < c")
    case True
    then have "fit need c = c * 2 ^ 0 \<and> need < c * 2 ^ 0 \<and> (\<forall>j<0. c * 2 ^ j \<le> need)"
      by (simp add: fit.simps)
    then show ?thesis by blast
  next
    case False
    with 1 obtain k where k: "fit need (2 * c) = 2 * c * 2 ^ k" "need < 2 * c * 2 ^ k"
      "\<forall>j<k. 2 * c * 2 ^ j \<le> need" by auto
    have "\<forall>j<Suc k. c * 2 ^ j \<le> need"
    proof (intro allI impI)
      fix j assume "j < Suc k"
      show "c * 2 ^ j \<le> need"
      proof (cases j)
        case 0 with False show ?thesis by simp
      next
        case (Suc i)
        with \<open>j < Suc k\<close> k(3) show ?thesis by (simp add: mult.assoc mult.left_commute)
      qed
    qed
    with k False 1(2) have "fit need c = c * 2 ^ Suc k \<and> need < c * 2 ^ Suc k \<and> (\<forall>j<Suc k. c * 2 ^ j \<le> need)"
      by (subst fit.simps) (simp add: mult.assoc mult.left_commute)
    then show ?thesis by blast
  qed
qed

lemma grow_fit: "0 < c \<Longrightarrow> 2 * need < 2 ^ 64 \<Longrightarrow> grow need c = Some (fit need c)"
proof (induction need c rule: fit.induct)
  case (1 need c)
  show ?case
  proof (cases "need < c")
    case True
    then show ?thesis by (simp add: grow_fits fit.simps)
  next
    case False
    with 1 have "size_t (c * 2) = 2 * c" by (simp add: size_t_def)
    with 1 False show ?thesis
      by (subst grow.simps, subst fit.simps) simp
  qed
qed

lemma fit_7_4: "fit 7 4 = 8"
  by (simp add: fit.simps)

lemma fit_10_4: "fit 10 4 = 16"
  by (simp add: fit.simps)

subsection \<open>Appending a string\<close>

lemma append_str_ok:
  assumes "ptr d \<noteq> Null" and "0 < cur" and "cur \<le> room d"
    and "2 * (length (str d) + length src) < 2 ^ 64"
    and "fit (length (str d) + length src) cur = cur \<or> A (fit (length (str d) + length src) cur)"
  shows "clog_append_str A d src cur =
     Inr (if fit (length (str d) + length src) cur = cur then d\<lparr>str := str d @ src\<rparr>
          else \<lparr>ptr = Heap, str = str d @ src, room = fit (length (str d) + length src) cur\<rparr>,
          fit (length (str d) + length src) cur)"
proof -
  let ?L = "length (str d) + length src"
  from assms(4) have L: "size_t ?L = ?L" by (simp add: size_t_id)
  from assms(2,4) have g: "grow ?L cur = Some (fit ?L cur)" by (rule grow_fit)
  from assms(2) have gt: "?L < fit ?L cur" by (rule fit_gt)
  show ?thesis
  proof (cases "fit ?L cur = cur")
    case True
    with gt assms(1,3) show ?thesis
      by (simp add: clog_append_str_def L g strcat_def)
  next
    case False
    with gt assms(1,5) show ?thesis
      by (cases "ptr d") (simp_all add: clog_append_str_def L g strcat_def strcpy_def malloc_def realloc_def)
  qed
qed

lemma grown_same: "length s < cur \<Longrightarrow> grown d cur s = d\<lparr>str := s\<rparr>"
  by (simp add: grown_def fit_fits)

lemma grown_str: "str (grown d cur s) = s"
  by (simp add: grown_def)

lemma append_str_grown:
  assumes "valid d cur" and "2 * (length (str d) + length src) < 2 ^ 64"
    and "fit (length (str d) + length src) cur = cur \<or> A (fit (length (str d) + length src) cur)"
  shows "clog_append_str A d src cur =
     Inr (grown d cur (str d @ src), fit (length (str d) + length src) cur)"
  using assms append_str_ok [of d cur src A] by (simp add: valid_def grown_def)

lemma valid_grown:
  assumes "valid d cur" and "2 * length s < 2 ^ 64"
  shows "valid (grown d cur s) (fit (length s) cur)"
proof -
  from assms(1) have pos: "0 < cur" by (simp add: valid_def)
  then have gt: "length s < fit (length s) cur" by (rule fit_gt)
  from pos assms(2) have "grow (length s) cur = Some (fit (length s) cur)" by (rule grow_fit)
  show ?thesis
  proof (cases "fit (length s) cur = cur")
    case True
    with assms(1) gt show ?thesis by (simp add: valid_def grown_def)
  next
    case False
    obtain k where k: "fit (length s) cur = cur * 2 ^ k" "\<forall>j<k. cur * 2 ^ j \<le> length s"
      using fit_char [OF pos, of "length s"] by blast
    from False k(1) have "k \<noteq> 0" by (cases k) auto
    then obtain i where i: "k = Suc i" by (cases k) auto
    with k(2) have "cur * 2 ^ i \<le> length s" by simp
    with k(1) i assms(2) have "fit (length s) cur \<le> 2 ^ 64" by simp
    with False gt show ?thesis by (simp add: valid_def grown_def)
  qed
qed

lemma grown_grown:
  assumes "length s1 \<le> length s2"
  shows "grown (grown d cur s1) (fit (length s1) cur) s2 = grown d cur s2"
proof -
  have ff: "fit (length s2) (fit (length s1) cur) = fit (length s2) cur"
    using assms by (rule fit_fit)
  have le: "fit (length s1) cur \<le> fit (length s2) cur" using assms by (rule fit_mono)
  have ge: "cur \<le> fit (length s1) cur" by (rule fit_ge)
  show ?thesis
  proof (cases "fit (length s2) cur = cur")
    case True
    with le ge have "fit (length s1) cur = cur" by simp
    with True show ?thesis by (simp add: grown_def)
  next
    case False
    then show ?thesis by (simp add: grown_def ff)
  qed
qed

lemma appends_ok:
  assumes "valid d cur" and "2 * (length (str d) + length (concat ss)) < 2 ^ 64"
    and "fit (length (str d) + length (concat ss)) cur = cur \<or> (\<forall>n. A n)"
  shows "appends A d cur ss =
     Inr (grown d cur (str d @ concat ss), fit (length (str d) + length (concat ss)) cur)"
  using assms
proof (induction ss arbitrary: d cur)
  case Nil
  then show ?case by (simp add: valid_def grown_same fit_fits)
next
  case (Cons s ss)
  let ?s1 = "str d @ s"
  let ?d1 = "grown d cur ?s1"
  let ?c1 = "fit (length ?s1) cur"
  let ?L = "length ?s1 + length (concat ss)"
  have le: "?c1 \<le> fit ?L cur" by (rule fit_mono) simp
  have ge: "cur \<le> ?c1" by (rule fit_ge)
  have ff: "fit ?L ?c1 = fit ?L cur" by (rule fit_fit) simp
  from Cons.prems(3) le ge have a1: "?c1 = cur \<or> A ?c1" by (auto simp: add.assoc)
  from Cons.prems(3) le ge have a2: "fit ?L ?c1 = ?c1 \<or> (\<forall>n. A n)"
    unfolding ff by (auto simp: add.assoc)
  from Cons.prems a1 have step: "clog_append_str A d s cur = Inr (?d1, ?c1)"
    using append_str_grown [of d cur s A] by simp
  from Cons.prems have v1: "valid ?d1 ?c1" by (intro valid_grown) simp_all
  have s1: "str ?d1 = ?s1" by (simp add: grown_def)
  from Cons.prems have b: "2 * (length (str ?d1) + length (concat ss)) < 2 ^ 64"
    by (simp add: s1)
  from a2 have a2': "fit (length (str ?d1) + length (concat ss)) ?c1 = ?c1 \<or> (\<forall>n. A n)"
    by (simp add: s1)
  from Cons.IH [OF v1 b a2'] have
    "appends A ?d1 ?c1 ss = Inr (grown ?d1 ?c1 (?s1 @ concat ss), fit ?L ?c1)"
    by (simp add: s1)
  moreover have "grown ?d1 ?c1 (?s1 @ concat ss) = grown d cur (?s1 @ concat ss)"
    by (rule grown_grown) simp
  ultimately show ?case using step ff by (simp add: add.assoc)
qed

lemma append_str_ptr:
  "clog_append_str A d src cur = Inr (d', cur') \<Longrightarrow> ptr d' \<noteq> Null"
  by (auto simp: clog_append_str_def strcat_def split: if_splits option.splits sum.splits)

lemma append_str_valid:
  assumes "valid d cur" and "clog_append_str A d src cur = Inr (d', cur')"
  shows "valid d' cur'"
proof -
  let ?L = "length (str d) + length src"
  from assms(1) have nn: "ptr d \<noteq> Null" and room: "cur \<le> room d" "room d \<le> 2 ^ 64"
    by (simp_all add: valid_def)
  from assms(2) nn obtain r where r: "grow (size_t ?L) cur = Some r" and c: "cur' = r"
    by (auto simp: clog_append_str_def split: option.splits sum.splits if_splits)
  from r have gt: "size_t ?L < r" by (rule grow_Some_gt)
  from r have bd: "r = cur \<or> r < 2 ^ 64" by (rule grow_Some_bound)
  show ?thesis
  proof (cases "r = cur")
    case True
    with assms(2) nn r have d': "d' = d\<lparr>str := str d @ src\<rparr>" and fits: "?L + 1 \<le> room d"
      by (auto simp: clog_append_str_def strcat_def split: if_splits)
    from fits room have "?L < 2 ^ 64" by simp
    then have "size_t ?L = ?L" by (simp add: size_t_def)
    with gt True c d' nn room show ?thesis by (simp add: valid_def)
  next
    case False
    with bd have r64: "r < 2 ^ 64" by simp
    from False assms(2) nn r have d': "ptr d' = Heap" "str d' = str d @ src" "room d' = r"
      and fits: "?L + 1 \<le> r"
      by (auto simp: clog_append_str_def strcat_def strcpy_def malloc_def realloc_def
               split: if_splits sum.splits)
    with c r64 show ?thesis by (simp add: valid_def)
  qed
qed

lemma append_str_fits:
  assumes "valid d cur" and "length (str d) + length src < cur"
  shows "clog_append_str A d src cur = Inr (d\<lparr>str := str d @ src\<rparr>, cur)"
proof -
  from assms have "length (str d) + length src < 2 ^ 64" by (simp add: valid_def)
  then have "size_t (length (str d) + length src) = length (str d) + length src"
    by (simp add: size_t_def)
  moreover from assms(2) have "grow (length (str d) + length src) cur = Some cur"
    by (rule grow_fits)
  ultimately show ?thesis using assms
    by (simp add: clog_append_str_def strcat_def valid_def)
qed

lemma append_str_nil:
  assumes "valid d cur"
  shows "clog_append_str A d [] cur = Inr (d, cur)"
  using assms append_str_fits [of d cur "[]" A] by (simp add: valid_def)

lemma appends_fits:
  assumes "valid d cur" and "length (str d) + length (concat ss) < cur"
  shows "appends A d cur ss = Inr (d\<lparr>str := str d @ concat ss\<rparr>, cur)"
  using assms
proof (induction ss arbitrary: d)
  case Nil
  then show ?case by simp
next
  case (Cons s ss)
  from Cons.prems have step: "clog_append_str A d s cur = Inr (d\<lparr>str := str d @ s\<rparr>, cur)"
    by (intro append_str_fits) simp_all
  from Cons.prems have "valid (d\<lparr>str := str d @ s\<rparr>) cur" by (simp add: valid_def)
  moreover from Cons.prems have "length (str (d\<lparr>str := str d @ s\<rparr>)) + length (concat ss) < cur"
    by simp
  ultimately have "appends A (d\<lparr>str := str d @ s\<rparr>) cur ss =
      Inr (d\<lparr>str := str d @ s\<rparr>\<lparr>str := str (d\<lparr>str := str d @ s\<rparr>) @ concat ss\<rparr>, cur)"
    by (rule Cons.IH)
  with step show ?case by simp
qed

text \<open>
  Claim C1. From a buffer in good standing with capacity \<open>cur\<close>, while every allocation
  succeeds and twice the final length is a \<^verbatim>\<open>size_t\<close>, a sequence of appends returns:
  the buffer holds the old text followed by the appended strings, in a region of the
  returned capacity once it has grown; the returned capacity is \<open>cur\<close> doubled \<open>k\<close>
  times, it exceeds the length of the text, and no smaller number of doublings does.
  A single append is the sequence of one string, and the scratch region of capacity
  \<open>C\<close> is the buffer \<open>\<lparr>ptr = Orig, str = [], room = C\<rparr>\<close> with \<open>cur = C\<close>.
\<close>

theorem growable_buffer_capacity:
  assumes "valid d cur" and "\<forall>n. A n"
    and "2 * length (str d @ concat ss) < 2 ^ 64"
  shows "appends A d cur ss =
           Inr (grown d cur (str d @ concat ss), fit (length (str d @ concat ss)) cur) \<and>
         (\<exists>k. fit (length (str d @ concat ss)) cur = cur * 2 ^ k \<and>
              length (str d @ concat ss) < cur * 2 ^ k \<and>
              (\<forall>j<k. cur * 2 ^ j \<le> length (str d @ concat ss)))"
proof
  from assms show "appends A d cur ss =
      Inr (grown d cur (str d @ concat ss), fit (length (str d @ concat ss)) cur)"
    using appends_ok [of d cur ss A] by simp
next
  from assms(1) have "0 < cur" by (simp add: valid_def)
  then show "\<exists>k. fit (length (str d @ concat ss)) cur = cur * 2 ^ k \<and>
      length (str d @ concat ss) < cur * 2 ^ k \<and>
      (\<forall>j<k. cur * 2 ^ j \<le> length (str d @ concat ss))"
    by (rule fit_char)
qed

theorem growable_buffer_capacity_witness:
  "appends (\<lambda>n. True) \<lparr>ptr = Orig, str = [], room = 4\<rparr> 4 [''ab'', ''cdefg''] =
     Inr (\<lparr>ptr = Heap, str = ''abcdefg'', room = 8\<rparr>, 8)"
proof -
  let ?d = "\<lparr>ptr = Orig, str = [], room = 4\<rparr>"
  let ?ss = "[''ab'', ''cdefg'']"
  have v: "valid ?d 4" by (simp add: valid_def)
  have a: "\<forall>n. (\<lambda>n. True) n" by simp
  have b: "2 * length (str ?d @ concat ?ss) < 2 ^ 64" by simp
  have s: "str ?d @ concat ?ss = ''abcdefg''" by simp
  have l: "length ''abcdefg'' = 7" by simp
  have g: "grown ?d 4 ''abcdefg'' = \<lparr>ptr = Heap, str = ''abcdefg'', room = 8\<rparr>"
    unfolding grown_def l fit_7_4 by simp
  from growable_buffer_capacity [OF v a b]
  have "appends (\<lambda>n. True) ?d 4 ?ss =
      Inr (grown ?d 4 (str ?d @ concat ?ss), fit (length (str ?d @ concat ?ss)) 4)"
    by (rule conjunct1)
  then show ?thesis unfolding s l fit_7_4 g .
qed

text \<open>
  A stated capacity of zero is never enough and doubling leaves it zero: the loop of
  \<^verbatim>\<open>_clog_append_str\<close> does not exit.
\<close>

theorem zero_capacity_hangs:
  "clog_append_str A \<lparr>ptr = Orig, str = s, room = r\<rparr> src 0 = Inl Hang"
  by (simp add: clog_append_str_def grow_zero)

subsection \<open>Appending an integer or a time\<close>

lemma dec_nat_length: "0 < k \<Longrightarrow> n < 10 ^ k \<Longrightarrow> length (dec_nat n) \<le> k"
proof (induction n arbitrary: k rule: dec_nat.induct)
  case (1 n)
  show ?case
  proof (cases "n < 10")
    case True
    with 1(2) show ?thesis by (subst dec_nat.simps) simp
  next
    case False
    with 1(3) have "k \<noteq> 1" by auto
    with 1(2) obtain j where k: "k = Suc j" "0 < j" by (cases k) auto
    with 1(3) have "n div 10 < 10 ^ j" by (simp add: less_mult_imp_div_less mult.commute)
    with 1(1) False k have "length (dec_nat (n div 10)) \<le> j" by simp
    with False k show ?thesis by (subst dec_nat.simps) simp
  qed
qed

lemma printf_ld_long: "- (2 ^ 63) \<le> n \<Longrightarrow> n < 2 ^ 63 \<Longrightarrow> length (printf_ld n) \<le> 20"
proof -
  assume a: "- (2 ^ 63) \<le> n" "n < 2 ^ 63"
  have "nat \<bar>n\<bar> < 10 ^ 19" using a by simp
  then have "length (dec_nat (nat \<bar>n\<bar>)) \<le> 19" by (intro dec_nat_length) simp_all
  then show ?thesis by (auto simp: printf_ld_def abs_if)
qed

lemma digit_value_digit: "n < 10 \<Longrightarrow> digit_value (digit n) = n"
proof -
  assume "n < 10"
  then have "n = 0 \<or> n = 1 \<or> n = 2 \<or> n = 3 \<or> n = 4 \<or> n = 5 \<or> n = 6 \<or> n = 7 \<or> n = 8 \<or> n = 9"
    by arith
  then show ?thesis by (auto simp: digit_value_def digit_def)
qed

lemma digit_not_minus: "n < 10 \<Longrightarrow> digit n \<noteq> CHR ''-''"
proof -
  assume "n < 10"
  then have "n = 0 \<or> n = 1 \<or> n = 2 \<or> n = 3 \<or> n = 4 \<or> n = 5 \<or> n = 6 \<or> n = 7 \<or> n = 8 \<or> n = 9"
    by arith
  then show ?thesis by (auto simp: digit_def)
qed

lemma read_nat_snoc: "read_nat (s @ [c]) = 10 * read_nat s + digit_value c"
  by (simp add: read_nat_def)

lemma read_dec_nat: "read_nat (dec_nat n) = n"
proof (induction n rule: dec_nat.induct)
  case (1 n)
  show ?case
  proof (cases "n < 10")
    case True
    then show ?thesis by (subst dec_nat.simps) (simp add: read_nat_def digit_value_digit)
  next
    case False
    with 1 have "read_nat (dec_nat (n div 10)) = n div 10" by simp
    with False show ?thesis
      by (subst dec_nat.simps) (simp add: read_nat_snoc digit_value_digit)
  qed
qed

lemma dec_nat_hd: "\<exists>k r. k < 10 \<and> dec_nat n = digit k # r"
proof (induction n rule: dec_nat.induct)
  case (1 n)
  show ?case
  proof (cases "n < 10")
    case True
    then show ?thesis by (subst dec_nat.simps) auto
  next
    case False
    with 1 obtain k r where "k < 10" "dec_nat (n div 10) = digit k # r" by auto
    with False show ?thesis by (subst dec_nat.simps) auto
  qed
qed

lemma read_printf_ld: "read_ld (printf_ld n) = n"
proof (cases "n < 0")
  case True
  then show ?thesis by (simp add: printf_ld_def read_ld_def read_dec_nat)
next
  case False
  obtain k r where k: "k < 10" "dec_nat (nat n) = digit k # r" using dec_nat_hd by blast
  then have "digit k \<noteq> CHR ''-''" by (simp add: digit_not_minus)
  with k(2) have "read_ld (dec_nat (nat n)) = int (read_nat (dec_nat (nat n)))"
    by (simp add: read_ld_def)
  with False show ?thesis by (simp add: printf_ld_def read_dec_nat)
qed

lemma printf_ld_40:
  "printf_ld 1000000000000000000000000000000000000000 = ''1000000000000000000000000000000000000000''"
  by (simp add: printf_ld_def digit_def dec_nat.simps)

lemma printf_ld_neg: "printf_ld (- 42) = ''-42''"
  by (simp add: printf_ld_def digit_def dec_nat.simps)

lemma append_int_piece:
  "valid d cur \<Longrightarrow> clog_append_int A d n cur = clog_append_str A d (int_text n) cur"
  by (simp add: clog_append_int_def int_text_def append_str_nil)

lemma append_time_piece:
  "valid d cur \<Longrightarrow> clog_append_time A d E f cur = clog_append_str A d (time_text E f) cur"
  by (auto simp: clog_append_time_def time_text_def Let_def append_str_nil)

text \<open>
  Claim C6. An integer whose decimal text has 40 characters or more is skipped: the
  buffer and the capacity are returned unchanged. An integer with a shorter text is
  appended as that text, and the text read back as a decimal number is the integer.
\<close>

theorem append_int_bound:
  "(length (printf_ld n) \<ge> 40 \<longrightarrow> clog_append_int A d n cur = Inr (d, cur)) \<and>
   (length (printf_ld n) < 40 \<longrightarrow>
      clog_append_int A d n cur = clog_append_str A d (printf_ld n) cur) \<and>
   read_ld (printf_ld n) = n"
  by (simp add: clog_append_int_def read_printf_ld)

theorem append_int_bound_witness:
  "clog_append_int (\<lambda>n. False) \<lparr>ptr = Orig, str = ''ab'', room = 8\<rparr>
     1000000000000000000000000000000000000000 8 =
   Inr (\<lparr>ptr = Orig, str = ''ab'', room = 8\<rparr>, 8) \<and>
   clog_append_int (\<lambda>n. False) \<lparr>ptr = Orig, str = ''ab'', room = 8\<rparr> (- 42) 8 =
   Inr (\<lparr>ptr = Orig, str = ''ab-42'', room = 8\<rparr>, 8)"
proof -
  let ?d = "\<lparr>ptr = Orig, str = ''ab'', room = 8\<rparr>"
  have "length (printf_ld 1000000000000000000000000000000000000000) \<ge> 40"
    unfolding printf_ld_40 by simp
  with append_int_bound [of 1000000000000000000000000000000000000000 "\<lambda>n. False" ?d 8]
  have 1: "clog_append_int (\<lambda>n. False) ?d 1000000000000000000000000000000000000000 8 = Inr (?d, 8)"
    by blast
  have "length (printf_ld (- 42)) < 40" unfolding printf_ld_neg by simp
  with append_int_bound [of "- 42" "\<lambda>n. False" ?d 8]
  have "clog_append_int (\<lambda>n. False) ?d (- 42) 8 = clog_append_str (\<lambda>n. False) ?d (printf_ld (- 42)) 8"
    by blast
  moreover have "clog_append_str (\<lambda>n. False) ?d ''-42'' 8 = Inr (?d\<lparr>str := str ?d @ ''-42''\<rparr>, 8)"
    by (rule append_str_fits) (simp_all add: valid_def)
  ultimately have 2: "clog_append_int (\<lambda>n. False) ?d (- 42) 8 =
      Inr (\<lparr>ptr = Orig, str = ''ab-42'', room = 8\<rparr>, 8)"
    by (simp add: printf_ld_neg)
  from 1 2 show ?thesis by simp
qed

text \<open>
  A value of a 64-bit \<^verbatim>\<open>long int\<close> has a decimal text of at most 20 characters, so
  \<^verbatim>\<open>_clog_append_int\<close> always appends it.
\<close>

theorem long_int_never_skipped:
  assumes "- (2 ^ 63) \<le> n" and "n < 2 ^ 63"
  shows "clog_append_int A d n cur = clog_append_str A d (printf_ld n) cur"
  using printf_ld_long [OF assms] by (simp add: clog_append_int_def)

theorem long_int_never_skipped_witness:
  "clog_append_int (\<lambda>n. False) \<lparr>ptr = Orig, str = [], room = 32\<rparr> (- 9223372036854775808) 32 =
   clog_append_str (\<lambda>n. False) \<lparr>ptr = Orig, str = [], room = 32\<rparr> ''-9223372036854775808'' 32"
proof -
  have "printf_ld (- 9223372036854775808) = ''-9223372036854775808''"
    by (simp add: printf_ld_def digit_def dec_nat.simps)
  with long_int_never_skipped [of "- 9223372036854775808" "\<lambda>n. False" "\<lparr>ptr = Orig, str = [], room = 32\<rparr>" 32]
  show ?thesis by simp
qed

subsection \<open>The expander as a sequence of appends\<close>

lemma map_sum_Inr_iff: "map_sum f g r = Inr y \<longleftrightarrow> (\<exists>x. r = Inr x \<and> y = g x)"
  by (cases r) auto

lemma format_step_piece:
  assumes "valid d cur"
  shows "format_step B A E logger X st c d cur =
     map_sum id (Pair (next_state st c)) (clog_append_str A d (piece B E logger X st c) cur)"
proof (cases st)
  case NORMAL
  with assms show ?thesis by (simp add: format_step_def piece_def append_str_nil)
next
  case SUBST
  with assms show ?thesis
    by (simp add: format_step_def piece_def append_str_nil append_int_piece append_time_piece)
qed

lemma format_loop_appends:
  assumes "valid d cur"
  shows "format_loop B A E logger X f st d cur =
     map_sum id fst (appends A d cur (pieces B E logger X st f))"
  using assms
proof (induction f arbitrary: st d cur)
  case Nil
  then show ?case by simp
next
  case (Cons c cs)
  show ?case
  proof (cases "clog_append_str A d (piece B E logger X st c) cur")
    case (Inl e)
    with Cons.prems show ?thesis by (simp add: format_step_piece)
  next
    case (Inr p)
    obtain d' cur' where p: "p = (d', cur')" by (cases p)
    with Inr Cons.prems have "valid d' cur'" by (auto dest: append_str_valid)
    with Cons.IH have "format_loop B A E logger X cs (next_state st c) d' cur' =
       map_sum id fst (appends A d' cur' (pieces B E logger X (next_state st c) cs))" .
    with Inr p Cons.prems show ?thesis by (simp add: format_step_piece id_def)
  qed
qed

lemma clog_format_appends:
  assumes "0 < buf_size" and "buf_size \<le> buf" and "buf \<le> 2 ^ 64"
  shows "clog_format B A E logger buf buf_size X =
     map_sum id fst (appends A \<lparr>ptr = Orig, str = [], room = buf\<rparr> buf_size
       (pieces B E logger (X\<lparr>sfile := clog_basename B (sfile X)\<rparr>) NORMAL (fmt logger)))"
proof -
  from assms have "valid \<lparr>ptr = Orig, str = [], room = buf\<rparr> buf_size" by (simp add: valid_def)
  with assms show ?thesis by (simp add: clog_format_def format_loop_appends)
qed

lemma clog_format_expand:
  assumes "0 < buf_size" and "buf_size \<le> buf" and "buf \<le> 2 ^ 64"
    and "2 * length (expand B E logger X) < 2 ^ 64"
    and "fit (length (expand B E logger X)) buf_size = buf_size \<or> (\<forall>n. A n)"
  shows "clog_format B A E logger buf buf_size X =
     Inr (grown \<lparr>ptr = Orig, str = [], room = buf\<rparr> buf_size (expand B E logger X))"
proof -
  let ?d = "\<lparr>ptr = Orig, str = [], room = buf\<rparr>"
  let ?ps = "pieces B E logger (X\<lparr>sfile := clog_basename B (sfile X)\<rparr>) NORMAL (fmt logger)"
  from assms have v: "valid ?d buf_size" by (simp add: valid_def)
  from assms(4) have b: "2 * (length (str ?d) + length (concat ?ps)) < 2 ^ 64"
    by (simp add: expand_def)
  from assms(5) have a: "fit (length (str ?d) + length (concat ?ps)) buf_size = buf_size \<or> (\<forall>n. A n)"
    by (simp add: expand_def)
  from appends_ok [OF v b a] assms(1-3) show ?thesis
    by (simp add: clog_format_appends expand_def)
qed

lemma clog_format_small:
  assumes "length (expand B E logger X) < buf_size" and "buf_size \<le> buf" and "buf \<le> 2 ^ 64"
  shows "clog_format B A E logger buf buf_size X =
     Inr \<lparr>ptr = Orig, str = expand B E logger X, room = buf\<rparr>"
proof -
  let ?d = "\<lparr>ptr = Orig, str = [], room = buf\<rparr>"
  let ?ps = "pieces B E logger (X\<lparr>sfile := clog_basename B (sfile X)\<rparr>) NORMAL (fmt logger)"
  from assms have v: "valid ?d buf_size" by (simp add: valid_def)
  from assms(1) have "length (str ?d) + length (concat ?ps) < buf_size"
    by (simp add: expand_def)
  from appends_fits [OF v this] assms show ?thesis
    by (simp add: clog_format_appends expand_def)
qed

text \<open>
  Given an array of the stated positive size, \<^verbatim>\<open>_clog_format\<close> is the sequence of
  appends of the pieces its characters select, with the same result or the same fault.
\<close>

theorem format_is_appends:
  assumes "0 < buf_size" and "buf_size \<le> buf" and "buf \<le> 2 ^ 64"
  shows "clog_format B A E logger buf buf_size X =
     map_sum id fst (appends A \<lparr>ptr = Orig, str = [], room = buf\<rparr> buf_size
       (pieces B E logger (X\<lparr>sfile := clog_basename B (sfile X)\<rparr>) NORMAL (fmt logger)))"
  using assms by (rule clog_format_appends)

theorem format_is_appends_witness:
  "clog_format posix_build (\<lambda>n. False) sample_env ((clog_logger posix_build)\<lparr>fmt := ''%e!''\<rparr>) 2 2 sample_args =
   map_sum id fst (appends (\<lambda>n. False) \<lparr>ptr = Orig, str = [], room = 2\<rparr> 2 [[], ''NET'', ''!''])"
  using format_is_appends [of 2 2 posix_build "\<lambda>n. False" sample_env
      "(clog_logger posix_build)\<lparr>fmt := ''%e!''\<rparr>" sample_args]
  by (simp add: piece_def sample_args_def)

subsection \<open>Scenarios and literal text\<close>

text \<open>
  Claim C2. The severity \<^verbatim>\<open>LEVEL_ERROR\<close> has the level name \<^verbatim>\<open>"E"\<close>, and the template
  \<^verbatim>\<open>"%l: %e: %m\n"\<close> with that level name, the module \<^verbatim>\<open>"NET"\<close> and the message
  \<^verbatim>\<open>"connection lost"\<close> expands, in the 4096-byte buffer of \<^verbatim>\<open>_clog_log\<close>, to exactly
  \<^verbatim>\<open>"E: NET: connection lost\n"\<close>, whatever the other values of the call are.
\<close>

theorem scenario_A:
  "level_name LEVEL_ERROR = Inr ''E'' \<and>
   clog_format B A E (logger\<lparr>fmt := ''%l: %e: %m\<newline>''\<rparr>) 4096 4096
     \<lparr>sfile = f, sline = n, sfunction = g, smodule = ''NET'', level = ''E'',
      message = ''connection lost''\<rparr> =
   Inr \<lparr>ptr = Orig, str = ''E: NET: connection lost\<newline>'', room = 4096\<rparr>"
proof
  show "level_name LEVEL_ERROR = Inr ''E''"
    by (simp add: level_name_def CLOG_LEVEL_NAMES_def)
next
  let ?L = "logger\<lparr>fmt := ''%l: %e: %m\<newline>''\<rparr>"
  let ?X = "\<lparr>sfile = f, sline = n, sfunction = g, smodule = ''NET'', level = ''E'',
      message = ''connection lost''\<rparr>"
  have e: "expand B E ?L ?X = ''E: NET: connection lost\<newline>''"
    by (simp add: expand_def piece_def)
  have "length (expand B E ?L ?X) < 4096" unfolding e by simp
  then have "clog_format B A E ?L 4096 4096 ?X = Inr \<lparr>ptr = Orig, str = expand B E ?L ?X, room = 4096\<rparr>"
    by (rule clog_format_small) simp_all
  then show "clog_format B A E ?L 4096 4096 ?X =
      Inr \<lparr>ptr = Orig, str = ''E: NET: connection lost\<newline>'', room = 4096\<rparr>"
    unfolding e .
qed

text \<open>
  Claim C5. In the directive state a character outside the recognized set leaves the
  buffer and the capacity as they are and the scanner goes back to the literal state;
  the template \<^verbatim>\<open>"%z%m\n"\<close> with the message \<^verbatim>\<open>"x"\<close> expands to exactly \<^verbatim>\<open>"x\n"\<close>.
\<close>

theorem unknown_selector_ignored:
  "(c \<notin> recognized B \<longrightarrow>
      format_step B A E logger X SUBST c result cur = Inr (NORMAL, result, cur)) \<and>
   clog_format B A E (logger\<lparr>fmt := ''%z%m\<newline>''\<rparr>) 4096 4096 (X\<lparr>message := ''x''\<rparr>) =
     Inr \<lparr>ptr = Orig, str = ''x\<newline>'', room = 4096\<rparr>"
proof
  show "c \<notin> recognized B \<longrightarrow>
      format_step B A E logger X SUBST c result cur = Inr (NORMAL, result, cur)"
    by (simp add: format_step_def recognized_def split: if_splits)
next
  let ?L = "logger\<lparr>fmt := ''%z%m\<newline>''\<rparr>"
  let ?X = "X\<lparr>message := ''x''\<rparr>"
  have e: "expand B E ?L ?X = ''x\<newline>''"
    by (simp add: expand_def piece_def)
  have "length (expand B E ?L ?X) < 4096" unfolding e by simp
  then have "clog_format B A E ?L 4096 4096 ?X = Inr \<lparr>ptr = Orig, str = expand B E ?L ?X, room = 4096\<rparr>"
    by (rule clog_format_small) simp_all
  then show "clog_format B A E ?L 4096 4096 ?X = Inr \<lparr>ptr = Orig, str = ''x\<newline>'', room = 4096\<rparr>"
    unfolding e .
qed

theorem unknown_selector_ignored_witness:
  "format_step posix_build (\<lambda>n. False) sample_env (clog_logger posix_build) sample_args SUBST CHR ''t''
     \<lparr>ptr = Orig, str = ''ab'', room = 4096\<rparr> 4096 =
   Inr (NORMAL, \<lparr>ptr = Orig, str = ''ab'', room = 4096\<rparr>, 4096) \<and>
   format_step windows_build (\<lambda>n. False) sample_env (clog_logger windows_build) sample_args SUBST CHR ''z''
     \<lparr>ptr = Orig, str = ''ab'', room = 4096\<rparr> 4096 =
   Inr (NORMAL, \<lparr>ptr = Orig, str = ''ab'', room = 4096\<rparr>, 4096)"
  using
    unknown_selector_ignored [of "CHR ''t''" posix_build "\<lambda>n. False" sample_env
      "clog_logger posix_build" sample_args "\<lparr>ptr = Orig, str = ''ab'', room = 4096\<rparr>" 4096]
    unknown_selector_ignored [of "CHR ''z''" windows_build "\<lambda>n. False" sample_env
      "clog_logger windows_build" sample_args "\<lparr>ptr = Orig, str = ''ab'', room = 4096\<rparr>" 4096]
  by (simp add: recognized_def posix_build_def windows_build_def)

lemma pieces_literal:
  "CHR ''%'' \<notin> set T \<Longrightarrow> concat (pieces B E logger X NORMAL T) = T"
  by (induction T) (auto simp: piece_def)

lemma expand_literal:
  "CHR ''%'' \<notin> set T \<Longrightarrow> expand B E (logger\<lparr>fmt := T\<rparr>) X = T"
  by (simp add: expand_def pieces_literal)

text \<open>
  Claim C8. A template without a percent sign expands to itself, for every context:
  in the caller's array when it fits the stated size, in a heap block of the fitted
  capacity otherwise, provided allocations succeed and twice its length is a
  \<^verbatim>\<open>size_t\<close>.
\<close>

theorem literal_template_verbatim:
  assumes "CHR ''%'' \<notin> set T"
    and "0 < buf_size" and "buf_size \<le> buf" and "buf \<le> 2 ^ 64"
    and "2 * length T < 2 ^ 64" and "length T < buf_size \<or> (\<forall>n. A n)"
  shows "clog_format B A E (logger\<lparr>fmt := T\<rparr>) buf buf_size X =
           Inr (grown \<lparr>ptr = Orig, str = [], room = buf\<rparr> buf_size T) \<and>
         str (grown \<lparr>ptr = Orig, str = [], room = buf\<rparr> buf_size T) = T"
proof
  from assms(1) have e: "expand B E (logger\<lparr>fmt := T\<rparr>) X = T" by (rule expand_literal)
  from assms(6) have "fit (length T) buf_size = buf_size \<or> (\<forall>n. A n)"
    by (auto simp: fit_fits)
  with assms(2-5) show "clog_format B A E (logger\<lparr>fmt := T\<rparr>) buf buf_size X =
      Inr (grown \<lparr>ptr = Orig, str = [], room = buf\<rparr> buf_size T)"
    using clog_format_expand [of buf_size buf B E "logger\<lparr>fmt := T\<rparr>" X A] by (simp add: e)
next
  show "str (grown \<lparr>ptr = Orig, str = [], room = buf\<rparr> buf_size T) = T"
    by (simp add: grown_def)
qed

theorem literal_template_verbatim_witness:
  "clog_format posix_build (\<lambda>n. True) sample_env ((clog_logger posix_build)\<lparr>fmt := ''plain text''\<rparr>)
     4 4 sample_args =
   Inr \<lparr>ptr = Heap, str = ''plain text'', room = 16\<rparr>"
proof -
  have l: "length ''plain text'' = 10" by simp
  have g: "grown \<lparr>ptr = Orig, str = [], room = 4\<rparr> 4 ''plain text'' =
      \<lparr>ptr = Heap, str = ''plain text'', room = 16\<rparr>"
    unfolding grown_def l fit_10_4 by simp
  have "clog_format posix_build (\<lambda>n. True) sample_env
      ((clog_logger posix_build)\<lparr>fmt := ''plain text''\<rparr>) 4 4 sample_args =
      Inr (grown \<lparr>ptr = Orig, str = [], room = 4\<rparr> 4 ''plain text'') \<and>
    str (grown \<lparr>ptr = Orig, str = [], room = 4\<rparr> 4 ''plain text'') = ''plain text''"
    by (rule literal_template_verbatim) simp_all
  then show ?thesis unfolding g by simp
qed

subsection \<open>A trailing percent sign\<close>

lemma format_step_state:
  "format_step B A E logger X st c d cur = Inr (st', d', cur') \<Longrightarrow> st' = next_state st c"
  by (cases st) (auto simp: format_step_def map_sum_Inr_iff split: if_splits)

lemma format_step_fmt:
  "format_step B A E (logger\<lparr>fmt := f\<rparr>) X st c d cur = format_step B A E logger X st c d cur"
  by (simp add: format_step_def)

lemma format_loop_fmt:
  "format_loop B A E (logger\<lparr>fmt := f\<rparr>) X T st d cur = format_loop B A E logger X T st d cur"
  by (induction T arbitrary: st d cur) (auto simp: format_step_fmt split: sum.splits)

lemma format_loop_trailing:
  "scan_state st T = NORMAL \<Longrightarrow>
   format_loop B A E logger X (T @ ''%'') st d cur = format_loop B A E logger X T st d cur"
proof (induction T arbitrary: st d cur)
  case Nil
  then show ?case by (simp add: format_step_def)
next
  case (Cons c cs)
  show ?case
  proof (cases "format_step B A E logger X st c d cur")
    case (Inl e)
    then show ?thesis by simp
  next
    case (Inr p)
    obtain st' d' cur' where p: "p = (st', d', cur')" by (cases p)
    with Inr have "st' = next_state st c" by (auto dest: format_step_state)
    with Cons.prems have "scan_state st' cs = NORMAL" by simp
    then have "format_loop B A E logger X (cs @ ''%'') st' d' cur' =
        format_loop B A E logger X cs st' d' cur'" by (rule Cons.IH)
    with Inr p show ?thesis by simp
  qed
qed

lemma sample_expand_100:
  "expand posix_build sample_env ((clog_logger posix_build)\<lparr>fmt := ''100%%''\<rparr>) sample_args = ''100%''"
  by (simp add: expand_def piece_def)

text \<open>
  Claim C4. When the scan of a template \<open>T\<close> ends in the literal state, the template
  \<open>T\<close> followed by a percent sign expands exactly as \<open>T\<close> does: the same run, with the
  same result or the same fault, for every context and buffer.
\<close>

theorem trailing_percent_dropped:
  assumes "scan_state NORMAL T = NORMAL"
  shows "clog_format B A E (logger\<lparr>fmt := T @ ''%''\<rparr>) buf buf_size X =
         clog_format B A E (logger\<lparr>fmt := T\<rparr>) buf buf_size X"
  using assms by (simp add: clog_format_def format_loop_fmt format_loop_trailing)

theorem trailing_percent_dropped_witness:
  "clog_format posix_build (\<lambda>n. False) sample_env ((clog_logger posix_build)\<lparr>fmt := ''100%%%''\<rparr>)
     4096 4096 sample_args =
   Inr \<lparr>ptr = Orig, str = ''100%'', room = 4096\<rparr>"
proof -
  let ?L = "(clog_logger posix_build)\<lparr>fmt := ''100%%''\<rparr>"
  have "scan_state NORMAL ''100%%'' = NORMAL" by simp
  then have "clog_format posix_build (\<lambda>n. False) sample_env
      ((clog_logger posix_build)\<lparr>fmt := ''100%%'' @ ''%''\<rparr>) 4096 4096 sample_args =
    clog_format posix_build (\<lambda>n. False) sample_env ?L 4096 4096 sample_args"
    by (rule trailing_percent_dropped)
  moreover have "length (expand posix_build sample_env ?L sample_args) < 4096"
    unfolding sample_expand_100 by simp
  then have "clog_format posix_build (\<lambda>n. False) sample_env ?L 4096 4096 sample_args =
      Inr \<lparr>ptr = Orig, str = expand posix_build sample_env ?L sample_args, room = 4096\<rparr>"
    by (rule clog_format_small) simp_all
  ultimately show ?thesis unfolding sample_expand_100 by simp
qed

subsection \<open>The base name of the source file\<close>

lemma after_last_Cons:
  "after_last P (x # xs) =
     (if \<exists>y\<in>set xs. P y then after_last P xs else if P x then xs else x # xs)"
proof (cases "\<exists>y\<in>set xs. P y")
  case True
  then obtain y where "y \<in> set (rev xs)" "\<not> \<not> P y" by auto
  then have "takeWhile (\<lambda>c. \<not> P c) (rev xs @ [x]) = takeWhile (\<lambda>c. \<not> P c) (rev xs)"
    by (rule takeWhile_append1)
  with True show ?thesis by (simp add: after_last_def)
next
  case False
  then have "takeWhile (\<lambda>c. \<not> P c) (rev xs @ [x]) = rev xs @ takeWhile (\<lambda>c. \<not> P c) [x]"
    by (intro takeWhile_append2) auto
  with False show ?thesis by (simp add: after_last_def)
qed

lemma strrchr_None: "strrchr xs c = None \<longleftrightarrow> c \<notin> set xs"
  by (induction xs) (auto split: option.splits)

lemma strrchr_after_last:
  "(case strrchr xs c of Some i \<Rightarrow> drop (i + 1) xs | None \<Rightarrow> xs) = after_last (\<lambda>x. x = c) xs"
proof (induction xs)
  case Nil
  then show ?case by (simp add: after_last_def)
next
  case (Cons x xs)
  show ?case
  proof (cases "strrchr xs c")
    case None
    then have "c \<notin> set xs" by (simp add: strrchr_None)
    with None Cons show ?thesis by (auto simp: after_last_Cons)
  next
    case (Some i)
    then have "c \<in> set xs" using strrchr_None [of xs c] by auto
    with Some Cons show ?thesis by (auto simp: after_last_Cons)
  qed
qed

lemma takeWhile_twice: "takeWhile Q (takeWhile P xs) = takeWhile (\<lambda>x. P x \<and> Q x) xs"
  by (induction xs) auto

lemma after_last_twice: "after_last Q (after_last P xs) = after_last (\<lambda>c. P c \<or> Q c) xs"
  by (simp add: after_last_def takeWhile_twice)

lemma after_last_free: "c \<in> set (after_last P xs) \<Longrightarrow> \<not> P c"
  by (auto simp: after_last_def dest: set_takeWhileD)

lemma after_last_length: "length (after_last P s) \<le> length s"
  using length_takeWhile_le [of "\<lambda>c. \<not> P c" "rev s"] by (simp add: after_last_def)

lemma clog_basename_after_last: "clog_basename B path = after_last (separator B) path"
proof -
  have sep: "separator B = (\<lambda>c. c = CHR ''/'' \<or> (WIN32 B \<and> c = CHR 0x5C))"
    by (rule ext) (simp add: separator_def)
  show ?thesis
  proof (cases "WIN32 B")
    case True
    then show ?thesis
      by (simp add: clog_basename_def Let_def strrchr_after_last after_last_twice sep)
  next
    case False
    then show ?thesis
      by (simp add: clog_basename_def Let_def strrchr_after_last sep)
  qed
qed

lemma expand_f: "expand B E (logger\<lparr>fmt := ''%f''\<rparr>) X = clog_basename B (sfile X)"
  by (simp add: expand_def piece_def)

text \<open>
  Claim C7. The base name is the text after the last separator of the path (the
  slash, and the backslash too on Windows), so it holds no separator; the directive
  \<^verbatim>\<open>%f\<close> renders the base name and nothing else, in the stack array for a path below
  4096 bytes and in a heap block when allocations succeed; \<^verbatim>\<open>"/a/b/c.ext"\<close> gives
  \<^verbatim>\<open>"c.ext"\<close>, and so does \<^verbatim>\<open>"a\b\c.ext"\<close> on Windows.
\<close>

theorem basename_rendered:
  "clog_basename B path = after_last (separator B) path \<and>
   (\<forall>c\<in>set (clog_basename B path). \<not> separator B c) \<and>
   (length path < 4096 \<or> (2 * length path < 2 ^ 64 \<and> (\<forall>n. A n)) \<longrightarrow>
      (\<exists>d. clog_format B A E (logger\<lparr>fmt := ''%f''\<rparr>) 4096 4096 (X\<lparr>sfile := path\<rparr>) = Inr d \<and>
           str d = clog_basename B path)) \<and>
   clog_basename B ''/a/b/c.ext'' = ''c.ext'' \<and>
   (WIN32 B \<longrightarrow> clog_basename B ([CHR ''a'', CHR 0x5C, CHR ''b'', CHR 0x5C] @ ''c.ext'') = ''c.ext'')"
proof (intro conjI)
  show "clog_basename B path = after_last (separator B) path"
    by (rule clog_basename_after_last)
  show "\<forall>c\<in>set (clog_basename B path). \<not> separator B c"
    by (auto simp: clog_basename_after_last dest: after_last_free)
  show "length path < 4096 \<or> (2 * length path < 2 ^ 64 \<and> (\<forall>n. A n)) \<longrightarrow>
      (\<exists>d. clog_format B A E (logger\<lparr>fmt := ''%f''\<rparr>) 4096 4096 (X\<lparr>sfile := path\<rparr>) = Inr d \<and>
           str d = clog_basename B path)"
  proof
    let ?L = "logger\<lparr>fmt := ''%f''\<rparr>"
    let ?X = "X\<lparr>sfile := path\<rparr>"
    assume r: "length path < 4096 \<or> (2 * length path < 2 ^ 64 \<and> (\<forall>n. A n))"
    have e: "expand B E ?L ?X = clog_basename B path"
      by (simp add: expand_f)
    have le: "length (clog_basename B path) \<le> length path"
      by (simp add: clog_basename_after_last after_last_length)
    from r le have "2 * length (expand B E ?L ?X) < 2 ^ 64" by (auto simp: e)
    moreover from r le have "fit (length (expand B E ?L ?X)) 4096 = 4096 \<or> (\<forall>n. A n)"
      by (auto simp: e fit_fits)
    ultimately have "clog_format B A E ?L 4096 4096 ?X =
        Inr (grown \<lparr>ptr = Orig, str = [], room = 4096\<rparr> 4096 (expand B E ?L ?X))"
      by (intro clog_format_expand) simp_all
    then show "\<exists>d. clog_format B A E ?L 4096 4096 ?X = Inr d \<and> str d = clog_basename B path"
      by (simp add: e grown_str)
  qed
  show "clog_basename B ''/a/b/c.ext'' = ''c.ext''"
    by (simp add: clog_basename_def Let_def)
  show "WIN32 B \<longrightarrow> clog_basename B ([CHR ''a'', CHR 0x5C, CHR ''b'', CHR 0x5C] @ ''c.ext'') = ''c.ext''"
    by (simp add: clog_basename_def Let_def)
qed

theorem basename_rendered_witness:
  "(\<exists>d. clog_format windows_build (\<lambda>n. False) sample_env ((clog_logger windows_build)\<lparr>fmt := ''%f''\<rparr>)
     4096 4096 (sample_args\<lparr>sfile := [CHR ''a'', CHR ''/'', CHR ''b'', CHR 0x5C] @ ''c.ext''\<rparr>) = Inr d \<and>
     str d = ''c.ext'') \<and>
   clog_basename windows_build ([CHR ''a'', CHR 0x5C, CHR ''b'', CHR 0x5C] @ ''c.ext'') = ''c.ext'' \<and>
   clog_basename posix_build ([CHR ''a'', CHR 0x5C, CHR ''b'', CHR ''/''] @ ''c.ext'') = ''c.ext''"
  using
    basename_rendered [of windows_build "[CHR ''a'', CHR ''/'', CHR ''b'', CHR 0x5C] @ ''c.ext''"
      "\<lambda>n. False" sample_env "clog_logger windows_build" sample_args]
  by (simp add: clog_basename_def Let_def windows_build_def posix_build_def)

subsection \<open>The user message\<close>

lemma message_short:
  assumes "length (expansion c) < 4096"
  shows "clog_log_message A c =
     Inr (Some (\<lparr>ptr = Orig, str = expansion c, room = 4096\<rparr>, int (length (expansion c))))"
  using assms
  by (simp add: clog_log_message_def vsnprintf_def INT_MAX_def size_t_of_int_def Let_def)

lemma message_long_no_args:
  assumes "4096 \<le> length (expansion c)" and "int (length (expansion c)) < INT_MAX"
    and "\<not> reads_args c" and "A (length (expansion c) + 1)"
  shows "clog_log_message A c =
     Inr (Some (\<lparr>ptr = Heap, str = expansion c, room = length (expansion c) + 1\<rparr>,
                int (length (expansion c))))"
proof -
  from assms(2) have "size_t_of_int (int (length (expansion c))) = length (expansion c)"
    and "size_t_of_int (int (length (expansion c)) + 1) = length (expansion c) + 1"
    by (simp_all add: size_t_of_int_def INT_MAX_def nat_add_distrib)
  with assms show ?thesis
    by (simp add: clog_log_message_def vsnprintf_def Let_def malloc_def)
qed

lemma message_long_args:
  assumes "4096 \<le> length (expansion c)" and "int (length (expansion c)) < INT_MAX"
    and "reads_args c"
  shows "clog_log_message A c = Inl VaReuse"
proof -
  from assms(2) have "size_t_of_int (int (length (expansion c))) = length (expansion c)"
    by (simp add: size_t_of_int_def INT_MAX_def)
  with assms show ?thesis
    by (simp add: clog_log_message_def vsnprintf_def Let_def)
qed

text \<open>
  The two passes of the message: a message shorter than 4096 bytes stays in the stack
  array with no allocation; a longer one whose format reads no argument is formatted
  again into a heap block of exactly its length plus one.
\<close>

theorem message_probe:
  "(length (expansion c) < 4096 \<longrightarrow>
      clog_log_message A c =
        Inr (Some (\<lparr>ptr = Orig, str = expansion c, room = 4096\<rparr>, int (length (expansion c))))) \<and>
   (4096 \<le> length (expansion c) \<and> int (length (expansion c)) < INT_MAX \<and> \<not> reads_args c \<and>
    A (length (expansion c) + 1) \<longrightarrow>
      clog_log_message A c =
        Inr (Some (\<lparr>ptr = Heap, str = expansion c, room = length (expansion c) + 1\<rparr>,
                   int (length (expansion c)))))"
  using message_short [of c A] message_long_no_args [of c A] by simp

theorem message_probe_witness:
  "clog_log_message (\<lambda>n. False) \<lparr>expansion = ''connection lost'', reads_args = True\<rparr> =
     Inr (Some (\<lparr>ptr = Orig, str = ''connection lost'', room = 4096\<rparr>, 15)) \<and>
   clog_log_message (\<lambda>n. n = 10001) \<lparr>expansion = replicate 10000 CHR ''a'', reads_args = False\<rparr> =
     Inr (Some (\<lparr>ptr = Heap, str = replicate 10000 CHR ''a'', room = 10001\<rparr>, 10000))"
  using
    message_probe [of "\<lparr>expansion = ''connection lost'', reads_args = True\<rparr>" "\<lambda>n. False"]
    message_probe [of "\<lparr>expansion = replicate 10000 CHR ''a'', reads_args = False\<rparr>" "\<lambda>n. n = 10001"]
  by (simp add: INT_MAX_def)

text \<open>
  Claim C3 at a message of 4096 characters that the format builds from an argument:
  the second \<^verbatim>\<open>vsnprintf\<close> reads the \<^verbatim>\<open>va_list\<close> that the first one has consumed, so the
  run is undefined before any message is produced.
\<close>

theorem long_message_with_arguments:
  "clog_log_message A \<lparr>expansion = replicate 4096 CHR ''a'', reads_args = True\<rparr> = Inl VaReuse \<and>
   clog_log B A E logger f l g m lv \<lparr>expansion = replicate 4096 CHR ''a'', reads_args = True\<rparr> =
     Inl VaReuse"
proof -
  have "clog_log_message A \<lparr>expansion = replicate 4096 CHR ''a'', reads_args = True\<rparr> = Inl VaReuse"
    by (rule message_long_args) (simp_all add: INT_MAX_def)
  then show ?thesis by (simp add: clog_log_def)
qed

subsection \<open>The returned pointer\<close>

lemma append_int_ptr:
  "ptr d \<noteq> Null \<Longrightarrow> clog_append_int A d n cur = Inr (d', cur') \<Longrightarrow> ptr d' \<noteq> Null"
  by (auto simp: clog_append_int_def dest: append_str_ptr split: if_splits)

lemma append_time_ptr:
  "ptr d \<noteq> Null \<Longrightarrow> clog_append_time A d E f cur = Inr (d', cur') \<Longrightarrow> ptr d' \<noteq> Null"
  by (auto simp: clog_append_time_def Let_def dest: append_str_ptr split: if_splits)

lemma format_step_ptr:
  assumes "ptr d \<noteq> Null" and "format_step B A E logger X st c d cur = Inr (st', d', cur')"
  shows "ptr d' \<noteq> Null"
  using assms
  by (auto simp: format_step_def map_sum_Inr_iff
           dest: append_str_ptr append_int_ptr append_time_ptr split: if_splits)

lemma format_loop_ptr:
  "ptr d \<noteq> Null \<Longrightarrow> format_loop B A E logger X T st d cur = Inr d' \<Longrightarrow> ptr d' \<noteq> Null"
proof (induction T arbitrary: st d cur)
  case Nil
  then show ?case by simp
next
  case (Cons c cs)
  from Cons.prems(2) obtain st1 d1 cur1 where
    step: "format_step B A E logger X st c d cur = Inr (st1, d1, cur1)"
    and rest: "format_loop B A E logger X cs st1 d1 cur1 = Inr d'"
    by (auto split: sum.splits)
  from Cons.prems(1) step have "ptr d1 \<noteq> Null" by (rule format_step_ptr)
  then show ?case using rest by (rule Cons.IH)
qed

lemma clog_format_ptr:
  assumes "clog_format B A E logger buf buf_size X = Inr d"
  shows "ptr d \<noteq> Null"
proof -
  from assms have "format_loop B A E logger (X\<lparr>sfile := clog_basename B (sfile X)\<rparr>) (fmt logger)
      NORMAL \<lparr>ptr = Orig, str = [], room = buf\<rparr> buf_size = Inr d"
    by (simp add: clog_format_def split: if_splits)
  moreover have "ptr \<lparr>ptr = Orig, str = [], room = buf\<rparr> \<noteq> Null" by simp
  ultimately show ?thesis by (rule format_loop_ptr [rotated])
qed

lemma sample_expand_default:
  "expand posix_build sample_env (clog_logger posix_build) sample_args =
     ''E: NET: c.ext(42): main: connection lost\<newline>''"
  by (simp add: expand_def piece_def clog_logger_def CLOG_DEFAULT_FORMAT_def posix_build_def
      sample_args_def clog_basename_def Let_def int_text_def printf_ld_def digit_def dec_nat.simps)

lemma sample_format_default:
  "clog_format posix_build A sample_env (clog_logger posix_build) 4096 4096 sample_args =
     Inr \<lparr>ptr = Orig, str = ''E: NET: c.ext(42): main: connection lost\<newline>'', room = 4096\<rparr>"
proof -
  have "length (expand posix_build sample_env (clog_logger posix_build) sample_args) < 4096"
    unfolding sample_expand_default by simp
  then have "clog_format posix_build A sample_env (clog_logger posix_build) 4096 4096 sample_args =
      Inr \<lparr>ptr = Orig, str = expand posix_build sample_env (clog_logger posix_build) sample_args,
           room = 4096\<rparr>"
    by (rule clog_format_small) simp_all
  then show ?thesis unfolding sample_expand_default .
qed

lemma sample_log:
  "clog_log posix_build (\<lambda>n. False) sample_env (clog_logger posix_build)
     ''/a/b/c.ext'' 42 ''main'' ''NET'' LEVEL_ERROR \<lparr>expansion = ''connection lost'', reads_args = False\<rparr> =
   Inr (Completed, [Called Printf ''E: NET: c.ext(42): main: connection lost\<newline>''])"
proof -
  have m: "clog_log_message (\<lambda>n. False) \<lparr>expansion = ''connection lost'', reads_args = False\<rparr> =
     Inr (Some (\<lparr>ptr = Orig, str = ''connection lost'', room = 4096\<rparr>, 15))"
    using message_short [of "\<lparr>expansion = ''connection lost'', reads_args = False\<rparr>" "\<lambda>n. False"]
    by simp
  have a: "\<lparr>sfile = ''/a/b/c.ext'', sline = 42, sfunction = ''main'', smodule = ''NET'',
      level = ''E'', message = ''connection lost''\<rparr> = sample_args"
    by (simp add: sample_args_def)
  show ?thesis
    by (simp add: clog_log_def m level_name_def CLOG_LEVEL_NAMES_def a sample_format_default)
       (simp add: clog_logger_def posix_build_def sample_env_def)
qed

lemma format_alloc_fails:
  "clog_format posix_build (\<lambda>n. False) sample_env ((clog_logger posix_build)\<lparr>fmt := ''%e!''\<rparr>) 2 2 sample_args
    = Inl NullDeref"
proof -
  have "grow 3 2 = Some 4" using grow_fit [of 2 3] by (simp add: fit.simps)
  then show ?thesis
    by (simp add: clog_format_def format_step_def sample_args_def clog_append_str_def size_t_def
        append_str_nil valid_def strcpy_def malloc_def)
qed

text \<open>
  Claim C10. Whenever \<^verbatim>\<open>_clog_format\<close> returns, the pointer it returns is not null, and
  no run of \<^verbatim>\<open>_clog_log\<close> takes the branch that reports \<^verbatim>\<open>Formatting failed (2)\<close>.
\<close>

theorem clog_format_never_null:
  "(clog_format B A E logger buf buf_size X = Inr d \<longrightarrow> ptr d \<noteq> Null) \<and>
   clog_log B A E logger f l g m lv c \<noteq> Inr (Failed2, evs)"
proof
  show "clog_format B A E logger buf buf_size X = Inr d \<longrightarrow> ptr d \<noteq> Null"
    by (auto dest: clog_format_ptr)
next
  show "clog_log B A E logger f l g m lv c \<noteq> Inr (Failed2, evs)"
    by (auto simp: clog_log_def Let_def dest: clog_format_ptr
             split: sum.splits option.splits prod.splits if_splits)
qed

theorem clog_format_never_null_witness:
  "clog_format posix_build (\<lambda>n. False) sample_env (clog_logger posix_build) 4096 4096 sample_args =
     Inr \<lparr>ptr = Orig, str = ''E: NET: c.ext(42): main: connection lost\<newline>'', room = 4096\<rparr> \<and>
   ptr \<lparr>ptr = Orig, str = ''E: NET: c.ext(42): main: connection lost\<newline>'', room = 4096\<rparr> \<noteq> Null"
  using
    clog_format_never_null [of posix_build "\<lambda>n. False" sample_env "clog_logger posix_build" 4096 4096
      sample_args "\<lparr>ptr = Orig, str = ''E: NET: c.ext(42): main: connection lost\<newline>'', room = 4096\<rparr>"]
    sample_format_default [of "\<lambda>n. False"]
  by simp

subsection \<open>Opening the log file\<close>









end
